theory Spec2Isabelle
  imports Complex_Main "HOL-Library.AList"
begin

section \<open>The cache directory\<close>

text \<open>
  The cache keeps everything in one directory: the entry files
  \<^verbatim>\<open>embedding_<hash>.pkl\<close>, the temporary files \<^verbatim>\<open>embedding_<hash>.tmp\<close> of a
  running \<^verbatim>\<open>put\<close>, and the index file \<^verbatim>\<open>metadata.pkl\<close>. The directory is an
  association list from names to nodes, in the order in which the operating system
  enumerates it. A regular file carries its bytes and its modification time; a
  subdirectory is opaque. Time stamps are Python floats, used only in comparisons;
  they are modelled as reals.
\<close>

type_synonym fname = string
type_synonym bytes = string
type_synonym timestamp = real

datatype node = File bytes timestamp | Dir

type_synonym dir = "(fname \<times> node) list"

text \<open>
  The exceptions. \<open>SystemExit\<close> stands for those that are not of class
  \<^verbatim>\<open>Exception\<close> (\<^verbatim>\<open>SystemExit\<close>, \<^verbatim>\<open>KeyboardInterrupt\<close>): a handler
  \<^verbatim>\<open>except Exception\<close> does not catch them.
\<close>

datatype py_exn = OSError | PicklingError | UnpicklingError | OverflowError | SystemExit

fun is_Exception :: "py_exn \<Rightarrow> bool" where
  "is_Exception SystemExit = False"
| "is_Exception x = True"

text \<open>
  The environment says which system calls are refused (permissions, locked files,
  a full disk). Each of them raises \<^verbatim>\<open>OSError\<close> in the source. \<open>rename_denied\<close> is
  about \<^verbatim>\<open>os.rename\<close> from the given source; \<open>copy_breaks\<close> gives, for a destination,
  the number of bytes after which a copy into it raises; \<open>dir_holds\<close> says that a
  subdirectory already holds a file of the given name.
\<close>

record env =
  read_denied :: "fname \<Rightarrow> bool"
  write_denied :: "fname \<Rightarrow> bool"
  unlink_denied :: "fname \<Rightarrow> bool"
  rename_denied :: "fname \<Rightarrow> bool"
  copy_breaks :: "fname \<Rightarrow> nat option"
  dir_holds :: "fname \<Rightarrow> fname \<Rightarrow> bool"

text \<open>\<^verbatim>\<open>Path.exists()\<close>: true for a file and for a directory.\<close>

definition exists_path :: "dir \<Rightarrow> fname \<Rightarrow> bool" where
  "exists_path d n = (case map_of d n of None \<Rightarrow> False | Some _ \<Rightarrow> True)"

text \<open>\<^verbatim>\<open>open(p, 'rb')\<close> followed by reading the whole file.\<close>

definition read_file :: "env \<Rightarrow> dir \<Rightarrow> fname \<Rightarrow> py_exn + bytes" where
  "read_file e d n =
     (case map_of d n of
        None \<Rightarrow> Inl OSError
      | Some Dir \<Rightarrow> Inl OSError
      | Some (File b t) \<Rightarrow> if read_denied e n then Inl OSError else Inr b)"

text \<open>\<^verbatim>\<open>open(p, 'wb')\<close>: creates the file, or truncates it.\<close>

definition open_wb :: "env \<Rightarrow> timestamp \<Rightarrow> dir \<Rightarrow> fname \<Rightarrow> py_exn + dir" where
  "open_wb e now d n =
     (if write_denied e n \<or> map_of d n = Some Dir then Inl OSError
      else Inr (AList.update n (File [] now) d))"

definition write_bytes :: "timestamp \<Rightarrow> dir \<Rightarrow> fname \<Rightarrow> bytes \<Rightarrow> dir" where
  "write_bytes now d n b = AList.update n (File b now) d"

text \<open>\<^verbatim>\<open>Path.unlink()\<close>: fails on a missing path and on a directory.\<close>

definition unlink :: "env \<Rightarrow> dir \<Rightarrow> fname \<Rightarrow> py_exn + dir" where
  "unlink e d n =
     (case map_of d n of
        Some (File b t) \<Rightarrow> if unlink_denied e n then Inl OSError else Inr (AList.delete n d)
      | _ \<Rightarrow> Inl OSError)"

text \<open>
  \<^verbatim>\<open>shutil.move(src, dst)\<close> of a regular file inside one directory. With \<^verbatim>\<open>dst\<close> a
  directory the target is a name inside it: the call raises when that name is taken,
  and otherwise the source leaves the listing. The library first tries \<^verbatim>\<open>os.rename\<close>,
  which replaces \<^verbatim>\<open>dst\<close> in one step. When that raises it falls back to
  \<^verbatim>\<open>copy2(src, dst)\<close> followed by \<^verbatim>\<open>os.unlink(src)\<close>: the copy opens the source, then
  opens and truncates the destination, writes the bytes and copies the modification
  time, and each of these steps and the final unlink may raise, with the directory as
  it is at that moment. (A source that is itself a directory is moved by other library
  code; \<^verbatim>\<open>put\<close> moves only the file it has just written, and the model raises.)
\<close>

definition move :: "env \<Rightarrow> timestamp \<Rightarrow> dir \<Rightarrow> fname \<Rightarrow> fname \<Rightarrow> (py_exn \<times> dir) + dir" where
  "move e now d src dst =
     (case map_of d src of
        None \<Rightarrow> Inl (OSError, d)
      | Some Dir \<Rightarrow> Inl (OSError, d)
      | Some (File b t) \<Rightarrow>
          (case map_of d dst of
             Some Dir \<Rightarrow>
               if dir_holds e dst src then Inl (OSError, d)
               else if \<not> rename_denied e src then Inr (AList.delete src d)
               else if read_denied e src then Inl (OSError, d)
               else if unlink_denied e src then Inl (OSError, d)
               else Inr (AList.delete src d)
           | _ \<Rightarrow>
               if \<not> rename_denied e src then
                 Inr (AList.update dst (File b t) (AList.delete src d))
               else if read_denied e src \<or> write_denied e dst then Inl (OSError, d)
               else (case copy_breaks e dst of
                       Some k \<Rightarrow> Inl (OSError, AList.update dst (File (take k b) now) d)
                     | None \<Rightarrow>
                         (let d1 = AList.update dst (File b t) d
                          in if unlink_denied e src then Inl (OSError, d1)
                             else Inr (AList.delete src d1)))))"

section \<open>Serialisation\<close>

text \<open>
  \<^verbatim>\<open>pickle\<close> is a library of the language, taken as a parameter. Dumping a value
  either completes or raises after some bytes were written; loading an entry either
  gives a value or raises. The index is a dictionary from strings to floats, which
  always dumps. Loading the index file gives whatever object the bytes are a pickle of,
  a dictionary of that kind or any other object (kept by its printed form), or raises.
\<close>

datatype dump_result = Dumped bytes | DumpFailed bytes

type_synonym index = "(fname \<times> timestamp) list"

datatype pyobj = Index index | Other string

datatype 'a loaded = Loaded 'a | Raises py_exn

record 'v pickle =
  dump_value :: "'v \<Rightarrow> dump_result"
  load_value :: "bytes \<Rightarrow> 'v option"
  dump_index :: "index \<Rightarrow> bytes"
  load_index :: "bytes \<Rightarrow> pyobj loaded"

section \<open>The cache object\<close>

text \<open>
  The object holds the index (a Python dictionary: an association list in insertion
  order) and the size limit; the directory is carried along with it.
\<close>

record cache =
  files :: dir
  metadata :: index
  max_size_bytes :: int

definition metadata_file :: fname where
  "metadata_file = ''metadata.pkl''"

subsection \<open>File names\<close>

text \<open>
  \<^verbatim>\<open>_get_cache_key\<close>: the parameter \<open>md5\<close> is
  \<^verbatim>\<open>hashlib.md5(str(key).encode()).hexdigest()\<close>.
\<close>

definition get_cache_key :: "('k \<Rightarrow> string) \<Rightarrow> 'k \<Rightarrow> fname" where
  "get_cache_key md5 key = ''embedding_'' @ md5 key @ ''.pkl''"

definition get_cache_path :: "('k \<Rightarrow> string) \<Rightarrow> 'k \<Rightarrow> fname" where
  "get_cache_path md5 key = get_cache_key md5 key"

text \<open>\<^verbatim>\<open>Path.with_suffix\<close>: the part from the last dot on is replaced.\<close>

definition with_suffix :: "fname \<Rightarrow> string \<Rightarrow> fname" where
  "with_suffix n suf =
     (if CHR ''.'' \<in> set n then rev (tl (dropWhile (\<lambda>c. c \<noteq> CHR ''.'') (rev n))) else n) @ suf"

text \<open>The pattern \<^verbatim>\<open>embedding_*.pkl\<close> of \<^verbatim>\<open>glob\<close>.\<close>

definition matches_pattern :: "fname \<Rightarrow> bool" where
  "matches_pattern n =
     (14 \<le> length n \<and> take 10 n = ''embedding_'' \<and> drop (length n - 4) n = ''.pkl'')"

definition glob :: "dir \<Rightarrow> (fname \<times> node) list" where
  "glob d = filter (\<lambda>(n, nd). matches_pattern n) d"

subsection \<open>The index on disk\<close>

text \<open>
  \<^verbatim>\<open>_load_metadata\<close>: the body of the \<^verbatim>\<open>try\<close>, then the method. The body returns
  what \<^verbatim>\<open>pickle.load\<close> returns, whatever object that is; the handler is
  \<^verbatim>\<open>except Exception\<close>.
\<close>

definition load_metadata_try :: "'v pickle \<Rightarrow> env \<Rightarrow> dir \<Rightarrow> py_exn + pyobj option" where
  "load_metadata_try pk e d =
     (if exists_path d metadata_file then
        (case read_file e d metadata_file of
           Inl x \<Rightarrow> Inl x
         | Inr b \<Rightarrow> (case load_index pk b of
                      Raises x \<Rightarrow> Inl x
                    | Loaded obj \<Rightarrow> Inr (Some obj)))
      else Inr None)"

definition load_metadata :: "'v pickle \<Rightarrow> env \<Rightarrow> dir \<Rightarrow> py_exn + pyobj" where
  "load_metadata pk e d =
     (case load_metadata_try pk e d of
        Inr (Some obj) \<Rightarrow> Inr obj
      | Inr None \<Rightarrow> Inr (Index [])
      | Inl x \<Rightarrow> if is_Exception x then Inr (Index []) else Inl x)"

text \<open>
  \<^verbatim>\<open>__init__\<close>, once the directory exists: the new object holds what
  \<^verbatim>\<open>_load_metadata\<close> returned. The operations below are those of an object whose
  \<^verbatim>\<open>metadata\<close> is a dictionary.
\<close>

record new_cache =
  new_files :: dir
  new_metadata :: pyobj
  new_max_size_bytes :: int

definition init :: "'v pickle \<Rightarrow> env \<Rightarrow> int \<Rightarrow> dir \<Rightarrow> py_exn + new_cache" where
  "init pk e limit d =
     (case load_metadata pk e d of
        Inl x \<Rightarrow> Inl x
      | Inr obj \<Rightarrow> Inr \<lparr>new_files = d, new_metadata = obj, new_max_size_bytes = limit\<rparr>)"

definition as_cache :: "new_cache \<Rightarrow> cache option" where
  "as_cache k =
     (case new_metadata k of
        Index m \<Rightarrow> Some \<lparr>files = new_files k, metadata = m, max_size_bytes = new_max_size_bytes k\<rparr>
      | Other r \<Rightarrow> None)"

text \<open>\<^verbatim>\<open>_save_metadata\<close>: a failure is swallowed.\<close>

definition save_metadata :: "'v pickle \<Rightarrow> env \<Rightarrow> timestamp \<Rightarrow> cache \<Rightarrow> cache" where
  "save_metadata pk e now c =
     (case open_wb e now (files c) metadata_file of
        Inl x \<Rightarrow> c
      | Inr d \<Rightarrow> c\<lparr>files := write_bytes now d metadata_file (dump_index pk (metadata c))\<rparr>)"

subsection \<open>Eviction\<close>

text \<open>
  \<^verbatim>\<open>_cleanup_old_files\<close>. The first loop collects name, size and access time of
  every regular file that matches the pattern (the equation for \<open>Dir\<close> is the test
  \<^verbatim>\<open>is_file()\<close>); the access time is the index's record, or the modification time
  when there is none.
\<close>

fun cache_files :: "index \<Rightarrow> (fname \<times> node) list \<Rightarrow> (fname \<times> int \<times> timestamp) list" where
  "cache_files m [] = []"
| "cache_files m ((n, Dir) # r) = cache_files m r"
| "cache_files m ((n, File b t) # r) =
     (n, int (length b), (case map_of m n of Some a \<Rightarrow> a | None \<Rightarrow> t)) # cache_files m r"

definition total_size :: "(fname \<times> int \<times> timestamp) list \<Rightarrow> int" where
  "total_size cs = sum_list (map (\<lambda>(n, s, a). s) cs)"

text \<open>
  \<^verbatim>\<open>target_size = self.max_size_bytes * 0.8\<close> is a product in double precision: the
  integer is converted to the nearest double (ties to even;
  \<^verbatim>\<open>OverflowError\<close> beyond the range of doubles), and multiplied by the double
  written \<^verbatim>\<open>0.8\<close>, which is \<open>3602879701896397 / 2 ^ 52\<close>, with the same rounding of
  the product. \<open>round53\<close> rounds a natural number to 53 significant bits.
\<close>

fun bitlen :: "nat \<Rightarrow> nat" where
  "bitlen n = (if n = 0 then 0 else Suc (bitlen (n div 2)))"

declare bitlen.simps [simp del]

definition round53 :: "nat \<Rightarrow> nat" where
  "round53 n =
     (let k = bitlen n
      in if k \<le> 53 then n
         else (let s = k - 53; q = n div 2 ^ s; r = n mod 2 ^ s; h = 2 ^ (s - 1)
               in (if h < r \<or> (r = h \<and> odd q) then q + 1 else q) * 2 ^ s))"

definition target_size :: "int \<Rightarrow> real option" where
  "target_size limit =
     (let a = round53 (nat \<bar>limit\<bar>)
      in if 2 ^ 1024 \<le> a then None
         else Some ((if limit < 0 then - 1 else 1) *
                    real (round53 (a * 3602879701896397)) / 2 ^ 52))"

text \<open>The second loop, over the sorted list; the state is directory, index and
  \<^verbatim>\<open>removed_size\<close>.\<close>

fun evict :: "env \<Rightarrow> int \<Rightarrow> real \<Rightarrow> (fname \<times> int \<times> timestamp) list
    \<Rightarrow> dir \<times> index \<times> int \<Rightarrow> dir \<times> index \<times> int" where
  "evict e tot target [] st = st"
| "evict e tot target ((n, s, a) # r) (d, m, removed) =
     (if real_of_int (tot - removed) \<le> target then (d, m, removed)
      else (case unlink e d n of
              Inl x \<Rightarrow> evict e tot target r (d, m, removed)
            | Inr d' \<Rightarrow> evict e tot target r (d', AList.delete n m, removed + s)))"


text \<open>
  The method. The only statement of its body that can raise here is the product, before
  anything was removed; the outer handler then leaves the cache as it is.
\<close>

definition cleanup_old_files :: "'v pickle \<Rightarrow> env \<Rightarrow> timestamp \<Rightarrow> cache \<Rightarrow> cache" where
  "cleanup_old_files pk e now c =
     (let cs = cache_files (metadata c) (glob (files c));
          tot = total_size cs
      in if tot > max_size_bytes c then
           (let ordered = sort_key (\<lambda>(n, s, a). a) cs
            in case target_size (max_size_bytes c) of
                 None \<Rightarrow> c
               | Some target \<Rightarrow>
                   (case evict e tot target ordered (files c, metadata c, 0) of
                      (d, m, removed) \<Rightarrow>
                        save_metadata pk e now (c\<lparr>files := d, metadata := m\<rparr>)))
         else c)"

subsection \<open>The public operations\<close>

text \<open>\<^verbatim>\<open>get\<close>: the body of the \<^verbatim>\<open>try\<close>, the handler, the method.\<close>

definition get_try :: "'v pickle \<Rightarrow> env \<Rightarrow> timestamp \<Rightarrow> fname \<Rightarrow> cache \<Rightarrow> py_exn + ('v \<times> cache)" where
  "get_try pk e now p c =
     (case read_file e (files c) p of
        Inl x \<Rightarrow> Inl x
      | Inr b \<Rightarrow>
          (case load_value pk b of
             None \<Rightarrow> Inl UnpicklingError
           | Some v \<Rightarrow>
               Inr (v, save_metadata pk e now (c\<lparr>metadata := AList.update p now (metadata c)\<rparr>))))"

definition get_except :: "env \<Rightarrow> fname \<Rightarrow> cache \<Rightarrow> cache" where
  "get_except e p c =
     (case unlink e (files c) p of
        Inl x \<Rightarrow> c
      | Inr d \<Rightarrow> c\<lparr>files := d, metadata := AList.delete p (metadata c)\<rparr>)"

definition get :: "'v pickle \<Rightarrow> ('k \<Rightarrow> string) \<Rightarrow> env \<Rightarrow> timestamp \<Rightarrow> 'k \<Rightarrow> cache \<Rightarrow> 'v option \<times> cache" where
  "get pk md5 e now key c =
     (let cache_path = get_cache_path md5 key
      in if \<not> exists_path (files c) cache_path then (None, c)
         else (case get_try pk e now cache_path c of
                 Inr (v, c') \<Rightarrow> (Some v, c')
               | Inl x \<Rightarrow> (None, get_except e cache_path c)))"

text \<open>
  \<^verbatim>\<open>put\<close>. The part of the \<^verbatim>\<open>try\<close> that can raise is the write of the temporary file
  and the move; an exception leaves the directory as it is at that moment.
  (\<^verbatim>\<open>Path.exists()\<close> is taken not to raise, here and in the handler.)
\<close>

definition write_entry :: "'v pickle \<Rightarrow> env \<Rightarrow> timestamp \<Rightarrow> fname \<Rightarrow> 'v \<Rightarrow> dir \<Rightarrow> (py_exn \<times> dir) + dir" where
  "write_entry pk e now cache_path v d =
     (let temp_path = with_suffix cache_path ''.tmp''
      in case open_wb e now d temp_path of
           Inl x \<Rightarrow> Inl (x, d)
         | Inr d1 \<Rightarrow>
             (case dump_value pk v of
                DumpFailed b \<Rightarrow> Inl (PicklingError, write_bytes now d1 temp_path b)
              | Dumped b \<Rightarrow>
                  move e now (write_bytes now d1 temp_path b) temp_path cache_path))"

definition put_except :: "env \<Rightarrow> fname \<Rightarrow> cache \<Rightarrow> cache" where
  "put_except e cache_path c =
     (let temp_path = with_suffix cache_path ''.tmp''
      in if exists_path (files c) temp_path then
           (case unlink e (files c) temp_path of
              Inl x \<Rightarrow> c
            | Inr d \<Rightarrow> c\<lparr>files := d\<rparr>)
         else c)"

definition put :: "'v pickle \<Rightarrow> ('k \<Rightarrow> string) \<Rightarrow> env \<Rightarrow> timestamp \<Rightarrow> 'k \<Rightarrow> 'v \<Rightarrow> cache \<Rightarrow> cache" where
  "put pk md5 e now key v c =
     (let cache_path = get_cache_path md5 key
      in case write_entry pk e now cache_path v (files c) of
           Inr d \<Rightarrow>
             cleanup_old_files pk e now
               (save_metadata pk e now
                  (c\<lparr>files := d, metadata := AList.update cache_path now (metadata c)\<rparr>))
         | Inl (x, d) \<Rightarrow> put_except e cache_path (c\<lparr>files := d\<rparr>))"

text \<open>\<^verbatim>\<open>find\<close>.\<close>

definition find_cache :: "('k \<Rightarrow> string) \<Rightarrow> 'k \<Rightarrow> cache \<Rightarrow> bool \<times> cache" where
  "find_cache md5 key c = (exists_path (files c) (get_cache_path md5 key), c)"

text \<open>
  \<^verbatim>\<open>clear\<close>: one \<^verbatim>\<open>try\<close> around the loop and the reset, so the first \<^verbatim>\<open>unlink\<close> that
  raises ends the method.
\<close>

fun clear_loop :: "env \<Rightarrow> fname list \<Rightarrow> dir \<Rightarrow> (py_exn \<times> dir) + dir" where
  "clear_loop e [] d = Inr d"
| "clear_loop e (n # r) d =
     (case unlink e d n of
        Inl x \<Rightarrow> Inl (x, d)
      | Inr d' \<Rightarrow> clear_loop e r d')"

definition clear :: "'v pickle \<Rightarrow> env \<Rightarrow> timestamp \<Rightarrow> cache \<Rightarrow> cache" where
  "clear pk e now c =
     (case clear_loop e (map fst (glob (files c))) (files c) of
        Inl (x, d) \<Rightarrow> c\<lparr>files := d\<rparr>
      | Inr d \<Rightarrow> save_metadata pk e now (c\<lparr>files := d, metadata := []\<rparr>))"

text \<open>
  \<^verbatim>\<open>get_cache_info\<close>: the number of matches of the pattern, and the bytes of those
  that are regular files (the sizes \<open>cache_files\<close> collects; the index plays no part).
\<close>

record cache_info =
  info_files :: nat
  info_size_mb :: real
  info_size_gb :: real

definition get_cache_info :: "cache \<Rightarrow> cache_info" where
  "get_cache_info c =
     (let found = glob (files c);
          tot = total_size (cache_files [] found)
      in \<lparr>info_files = length found,
          info_size_mb = real_of_int tot / (1024 * 1024),
          info_size_gb = real_of_int tot / (1024 * 1024 * 1024)\<rparr>)"

section \<open>Example instances\<close>

text \<open>
  A small pickle, a stand-in for the digest and an environment that refuses nothing,
  for the concrete runs below. The small pickle puts a tag in front of a value, does
  not dump the empty string, and lists the names of an index; of the index files it
  loads the dump of the empty index, one pickle of a list, and one that ends the
  interpreter.
\<close>

definition demo_pickle :: "string pickle" where
  "demo_pickle =
     \<lparr>dump_value = (\<lambda>v. if v = [] then DumpFailed ''V'' else Dumped (CHR ''V'' # v)),
      load_value = (\<lambda>b. case b of [] \<Rightarrow> None | c # v \<Rightarrow> if c = CHR ''V'' \<and> v \<noteq> [] then Some v else None),
      dump_index = (\<lambda>m. CHR ''M'' # concat (map (\<lambda>(n, t). n @ '';'') m)),
      load_index = (\<lambda>b. if b = ''M'' then Loaded (Index [])
                         else if b = ''L'' then Loaded (Other ''[1, 2, 3]'')
                         else if b = ''Q'' then Raises SystemExit
                         else Raises UnpicklingError)\<rparr>"

definition demo_md5 :: "string \<Rightarrow> string" where
  "demo_md5 k = k"

definition permissive :: env where
  "permissive =
     \<lparr>read_denied = (\<lambda>n. False), write_denied = (\<lambda>n. False),
      unlink_denied = (\<lambda>n. False), rename_denied = (\<lambda>n. False),
      copy_breaks = (\<lambda>n. None), dir_holds = (\<lambda>d n. False)\<rparr>"

text \<open>A cache whose only entry holds bytes that do not load.\<close>

definition corrupt_dir :: dir where
  "corrupt_dir =
     [(''embedding_k.pkl'', File ''garbage'' 1),
      (''metadata.pkl'', File ''Membedding_k.pkl;'' 1)]"

definition corrupt_cache :: cache where
  "corrupt_cache =
     \<lparr>files = corrupt_dir, metadata = [(''embedding_k.pkl'', 1)], max_size_bytes = 1000\<rparr>"

text \<open>A directory whose index file does not load.\<close>

definition stale_dir :: dir where
  "stale_dir = [(''metadata.pkl'', File ''Membedding_k.pkl;'' 1)]"

text \<open>
  A cache with two entries, a temporary file left behind, and its index on disk; and
  an environment in which the first entry cannot be removed.
\<close>

definition two_dir :: dir where
  "two_dir =
     [(''embedding_a.pkl'', File ''Vaaa'' 1),
      (''embedding_b.pkl'', File ''Vbbbbb'' 2),
      (''embedding_c.tmp'', File ''Vc'' 3),
      (''metadata.pkl'', File ''Membedding_a.pkl;embedding_b.pkl;'' 2)]"

definition two_cache :: cache where
  "two_cache =
     \<lparr>files = two_dir, metadata = [(''embedding_a.pkl'', 1), (''embedding_b.pkl'', 2)],
      max_size_bytes = 1000\<rparr>"

definition locked_a :: env where
  "locked_a = permissive\<lparr>unlink_denied := (\<lambda>n. n = ''embedding_a.pkl'')\<rparr>"



text \<open>An environment in which the entry of that cache cannot be removed.\<close>

definition locked_k :: env where
  "locked_k = permissive\<lparr>unlink_denied := (\<lambda>n. n = ''embedding_k.pkl'')\<rparr>"

text \<open>
  Directories whose index file is a well-formed pickle of a list, and a pickle whose
  load ends the interpreter.
\<close>

definition list_dir :: dir where
  "list_dir = [(''metadata.pkl'', File ''L'' 1)]"

definition quit_dir :: dir where
  "quit_dir = [(''metadata.pkl'', File ''Q'' 1)]"




section \<open>Basic facts\<close>

subsection \<open>File names\<close>

lemma with_suffix_pkl: "with_suffix (pre @ ''.pkl'') suf = pre @ suf"
  by (simp add: with_suffix_def)

lemma temp_path_eq:
  "with_suffix (get_cache_path md5 key) ''.tmp'' = ''embedding_'' @ md5 key @ ''.tmp''"
  using with_suffix_pkl [of "''embedding_'' @ md5 key" "''.tmp''"]
  by (simp add: get_cache_path_def get_cache_key_def)

lemma matches_cache_path: "matches_pattern (get_cache_path md5 key)"
  by (simp add: matches_pattern_def get_cache_path_def get_cache_key_def)

lemma not_matches_tmp: "\<not> matches_pattern (pre @ ''.tmp'')"
  by (simp add: matches_pattern_def)

lemma not_matches_temp_path: "\<not> matches_pattern (with_suffix (get_cache_path md5 key) ''.tmp'')"
  unfolding temp_path_eq using not_matches_tmp [of "''embedding_'' @ md5 key"] by simp

lemma not_matches_metadata: "\<not> matches_pattern metadata_file"
  by (simp add: matches_pattern_def metadata_file_def)

lemma temp_neq_cache_path:
  "with_suffix (get_cache_path md5 key) ''.tmp'' \<noteq> get_cache_path md5 key"
  unfolding temp_path_eq by (simp add: get_cache_path_def get_cache_key_def)

lemma metadata_neq_cache_path: "metadata_file \<noteq> get_cache_path md5 key"
  by (simp add: metadata_file_def get_cache_path_def get_cache_key_def)


subsection \<open>System calls\<close>

lemma exists_path_iff: "exists_path d n \<longleftrightarrow> n \<in> fst ` set d"
  by (simp add: exists_path_def map_of_eq_None_iff split: option.splits)
     (metis map_of_eq_None_iff option.distinct(1))

lemma exists_path_map_of: "exists_path d n \<longleftrightarrow> map_of d n \<noteq> None"
  by (simp add: exists_path_def split: option.splits)

lemma map_of_open_wb:
  "open_wb e now d n = Inr d' \<Longrightarrow> map_of d' = (map_of d)(n \<mapsto> File [] now)"
  by (auto simp: open_wb_def update_conv' split: if_splits)

lemma map_of_write_bytes: "map_of (write_bytes now d n b) = (map_of d)(n \<mapsto> File b now)"
  by (simp add: write_bytes_def update_conv')

lemma map_of_unlink: "unlink e d n = Inr d' \<Longrightarrow> map_of d' = (map_of d)(n := None)"
  by (auto simp: unlink_def delete_conv' split: option.splits node.splits if_splits)

lemma unlink_eq: "unlink e d n = Inr d' \<Longrightarrow> d' = AList.delete n d"
  by (auto simp: unlink_def split: option.splits node.splits if_splits)

lemma unlink_ok:
  "map_of d n = Some (File b t) \<Longrightarrow> \<not> unlink_denied e n \<Longrightarrow> unlink e d n = Inr (AList.delete n d)"
  by (simp add: unlink_def)

lemma map_of_save_metadata:
  "n \<noteq> metadata_file \<Longrightarrow> map_of (files (save_metadata pk e now c)) n = map_of (files c) n"
  by (auto simp: save_metadata_def map_of_write_bytes dest: map_of_open_wb split: sum.splits)

lemma metadata_save_metadata [simp]: "metadata (save_metadata pk e now c) = metadata c"
  by (simp add: save_metadata_def split: sum.splits)

lemma limit_save_metadata [simp]: "max_size_bytes (save_metadata pk e now c) = max_size_bytes c"
  by (simp add: save_metadata_def split: sum.splits)

lemma save_metadata_ok:
  "\<not> write_denied e metadata_file \<Longrightarrow> map_of (files c) metadata_file \<noteq> Some Dir \<Longrightarrow>
   map_of (files (save_metadata pk e now c)) metadata_file = Some (File (dump_index pk (metadata c)) now)"
  by (simp add: save_metadata_def open_wb_def map_of_write_bytes)

lemma save_metadata_keeps:
  "exists_path (files c) n \<Longrightarrow> exists_path (files (save_metadata pk e now c)) n"
  by (auto simp: save_metadata_def exists_path_map_of map_of_write_bytes
      dest!: map_of_open_wb split: sum.splits)

section \<open>The existence probe\<close>

text \<open>
  C8. \<^verbatim>\<open>find(key)\<close> returns true exactly when the name derived from the key is in
  the cache directory, and it leaves the whole state as it was: directory (entry
  files and the index file on disk), index and limit.
\<close>

theorem find_cache_pure:
  "snd (find_cache md5 key c) = c \<and>
   fst (find_cache md5 key c) = (get_cache_key md5 key \<in> fst ` set (files c))"
  by (simp add: find_cache_def get_cache_path_def exists_path_iff)

section \<open>Corrupt entries\<close>

lemma get_corrupt:
  assumes "map_of (files c) (get_cache_path md5 key) = Some (File b t)"
    and "load_value pk b = None"
  shows "get pk md5 e now key c = (None, get_except e (get_cache_path md5 key) c)"
  using assms by (simp add: get_def Let_def exists_path_map_of get_try_def read_file_def)

lemma get_corrupt_keeps_index_file:
  assumes "map_of (files c) (get_cache_path md5 key) = Some (File b t)"
    and "load_value pk b = None"
  shows "map_of (files (snd (get pk md5 e now key c))) metadata_file = map_of (files c) metadata_file"
  using assms metadata_neq_cache_path [of md5 key]
  by (auto simp: get_corrupt get_except_def delete_conv' dest!: unlink_eq split: sum.splits)

text \<open>
  C9, as amended. When the entry file of a key is there and its bytes do not load,
  \<^verbatim>\<open>find\<close> answers true and \<^verbatim>\<open>get\<close> answers absent. After that \<^verbatim>\<open>get\<close>, \<^verbatim>\<open>find\<close>
  answers false when the removal of the file went through, and still true when the
  removal was refused: the handler of \<^verbatim>\<open>get\<close> swallows that failure and leaves the
  file.
\<close>

theorem find_true_get_absent:
  assumes "map_of (files c) (get_cache_path md5 key) = Some (File b t)"
    and "load_value pk b = None"
  shows "fst (find_cache md5 key c) \<and>
         fst (get pk md5 e now key c) = None \<and>
         fst (find_cache md5 key (snd (get pk md5 e now key c))) =
           unlink_denied e (get_cache_path md5 key)"
proof -
  let ?p = "get_cache_path md5 key"
  have "fst (find_cache md5 key c)"
    using assms(1) by (simp add: find_cache_def exists_path_map_of)
  moreover have g: "get pk md5 e now key c = (None, get_except e ?p c)"
    using assms by (rule get_corrupt)
  moreover have "exists_path (files (get_except e ?p c)) ?p = unlink_denied e ?p"
    using assms(1) by (simp add: get_except_def unlink_def exists_path_map_of delete_conv')
  ultimately show ?thesis
    by (simp add: find_cache_def)
qed

theorem find_true_get_absent_witness:
  "map_of (files corrupt_cache) (get_cache_path demo_md5 ''k'') = Some (File ''garbage'' 1) \<and>
   load_value demo_pickle ''garbage'' = None \<and>
   \<not> unlink_denied permissive (get_cache_path demo_md5 ''k'') \<and>
   fst (find_cache demo_md5 ''k'' corrupt_cache) \<and>
   fst (get demo_pickle demo_md5 permissive 2 ''k'' corrupt_cache) = None \<and>
   \<not> fst (find_cache demo_md5 ''k'' (snd (get demo_pickle demo_md5 permissive 2 ''k'' corrupt_cache)))"
proof -
  have h1: "map_of (files corrupt_cache) (get_cache_path demo_md5 ''k'') = Some (File ''garbage'' 1)"
    by (simp add: corrupt_cache_def corrupt_dir_def get_cache_path_def get_cache_key_def demo_md5_def)
  have h2: "load_value demo_pickle ''garbage'' = None"
    by (simp add: demo_pickle_def)
  have h3: "\<not> unlink_denied permissive (get_cache_path demo_md5 ''k'')"
    by (simp add: permissive_def)
  show ?thesis
    using h1 h2 h3 find_true_get_absent [OF h1 h2, where e = permissive and now = 2] by simp
qed

text \<open>
  The claim C9 as it was stated, that \<^verbatim>\<open>find\<close> answers false after every such
  \<^verbatim>\<open>get\<close>, fails on the cache with the corrupt entry when its removal is refused.
\<close>

theorem find_stays_true_when_unlink_refused:
  "map_of (files corrupt_cache) (get_cache_path demo_md5 ''k'') = Some (File ''garbage'' 1) \<and>
   load_value demo_pickle ''garbage'' = None \<and>
   fst (find_cache demo_md5 ''k'' corrupt_cache) \<and>
   get demo_pickle demo_md5 locked_k 2 ''k'' corrupt_cache = (None, corrupt_cache) \<and>
   fst (find_cache demo_md5 ''k'' (snd (get demo_pickle demo_md5 locked_k 2 ''k'' corrupt_cache)))"
proof -
  have g: "get demo_pickle demo_md5 locked_k 2 ''k'' corrupt_cache = (None, corrupt_cache)"
    by (simp add: get_def get_cache_path_def get_cache_key_def demo_md5_def corrupt_cache_def
      corrupt_dir_def exists_path_def get_try_def read_file_def permissive_def demo_pickle_def
      get_except_def unlink_def locked_k_def Let_def)
  show ?thesis
    unfolding g
    by (simp add: get_cache_path_def get_cache_key_def demo_md5_def corrupt_cache_def
      corrupt_dir_def exists_path_def find_cache_def demo_pickle_def)
qed

text \<open>
  C3. A \<^verbatim>\<open>get\<close> that finds bytes which do not load removes the entry file and the
  record and answers absent. It is claimed to write the index to disk as well. Run on
  the cache above, whose index file holds the dump of the one record, it leaves that
  file as it was: the record is gone from the index in memory, and the file still
  holds the old dump, not the dump of the empty index.
\<close>

theorem get_corrupt_index_not_persisted:
  "get demo_pickle demo_md5 permissive 2 ''k'' corrupt_cache =
     (None, \<lparr>files = [(''metadata.pkl'', File ''Membedding_k.pkl;'' 1)], metadata = [],
             max_size_bytes = 1000\<rparr>) \<and>
   dump_index demo_pickle (metadata corrupt_cache) = ''Membedding_k.pkl;'' \<and>
   dump_index demo_pickle [] = ''M''"
  by (simp add: get_def get_cache_path_def get_cache_key_def demo_md5_def corrupt_cache_def
      corrupt_dir_def exists_path_def get_try_def read_file_def permissive_def demo_pickle_def
      get_except_def unlink_def AList.delete_eq)

section \<open>Loading the index\<close>

lemma load_metadata_cases:
  "load_metadata pk e d =
     (case map_of d metadata_file of
        None \<Rightarrow> Inr (Index [])
      | Some Dir \<Rightarrow> Inr (Index [])
      | Some (File b t) \<Rightarrow>
          if read_denied e metadata_file then Inr (Index [])
          else (case load_index pk b of
                  Loaded obj \<Rightarrow> Inr obj
                | Raises x \<Rightarrow> if is_Exception x then Inr (Index []) else Inl x))"
  by (auto simp: load_metadata_def load_metadata_try_def exists_path_def read_file_def
      split: option.splits node.splits loaded.splits)

text \<open>
  C6, as amended. Loading the index gives the empty index whenever the index file is
  missing, is not a regular file, cannot be read, or holds bytes whose load raises an
  exception of class \<^verbatim>\<open>Exception\<close> (truncated or corrupt bytes, an unsupported
  protocol); the constructor then builds the cache with the empty index. Bytes that load
  without an error are returned as the object they load to, whatever it is, and the
  constructor builds the cache with that object. The constructor fails only when the
  load raises outside \<^verbatim>\<open>Exception\<close>, which the handler does not catch.
\<close>

theorem load_metadata_failure_empty:
  "(map_of d metadata_file = None \<or>
    map_of d metadata_file = Some Dir \<or>
    (\<exists>b t. map_of d metadata_file = Some (File b t) \<and>
           (read_denied e metadata_file \<or>
            (\<exists>x. load_index pk b = Raises x \<and> is_Exception x))) \<longrightarrow>
      load_metadata pk e d = Inr (Index []) \<and>
      init pk e limit d = Inr \<lparr>new_files = d, new_metadata = Index [], new_max_size_bytes = limit\<rparr>) \<and>
   (\<forall>b t obj. map_of d metadata_file = Some (File b t) \<and> \<not> read_denied e metadata_file \<and>
        load_index pk b = Loaded obj \<longrightarrow>
      load_metadata pk e d = Inr obj \<and>
      init pk e limit d = Inr \<lparr>new_files = d, new_metadata = obj, new_max_size_bytes = limit\<rparr>) \<and>
   (\<forall>x. init pk e limit d = Inl x \<longrightarrow>
      \<not> is_Exception x \<and>
      (\<exists>b t. map_of d metadata_file = Some (File b t) \<and> load_index pk b = Raises x))"
  by (auto simp: init_def load_metadata_cases split: option.splits node.splits loaded.splits if_splits)

theorem load_metadata_failure_empty_witness:
  "map_of stale_dir metadata_file = Some (File ''Membedding_k.pkl;'' 1) \<and>
   load_index demo_pickle ''Membedding_k.pkl;'' = Raises UnpicklingError \<and>
   is_Exception UnpicklingError \<and>
   load_metadata demo_pickle permissive stale_dir = Inr (Index []) \<and>
   init demo_pickle permissive 1000 stale_dir =
     Inr \<lparr>new_files = stale_dir, new_metadata = Index [], new_max_size_bytes = 1000\<rparr>"
proof -
  have h1: "map_of stale_dir metadata_file = Some (File ''Membedding_k.pkl;'' 1)"
    by (simp add: stale_dir_def metadata_file_def)
  have h2: "load_index demo_pickle ''Membedding_k.pkl;'' = Raises UnpicklingError"
    by (simp add: demo_pickle_def)
  have "map_of stale_dir metadata_file = None \<or>
        map_of stale_dir metadata_file = Some Dir \<or>
        (\<exists>b t. map_of stale_dir metadata_file = Some (File b t) \<and>
               (read_denied permissive metadata_file \<or>
                (\<exists>x. load_index demo_pickle b = Raises x \<and> is_Exception x)))"
    using h1 h2 by simp
  with load_metadata_failure_empty [of stale_dir permissive demo_pickle 1000] h1 h2
  show ?thesis by simp
qed

text \<open>
  The claim C6 as it was stated, that an index file in another format gives the empty
  index and that construction succeeds whatever the file holds, fails on an index file
  that is the pickle of a list: the list is returned as the index. It fails as well on
  a pickle whose load raises \<^verbatim>\<open>SystemExit\<close>: the constructor raises.
\<close>

theorem load_metadata_returns_other_object:
  "map_of list_dir metadata_file = Some (File ''L'' 1) \<and>
   load_metadata demo_pickle permissive list_dir = Inr (Other ''[1, 2, 3]'') \<and>
   load_metadata demo_pickle permissive list_dir \<noteq> Inr (Index []) \<and>
   as_cache \<lparr>new_files = list_dir, new_metadata = Other ''[1, 2, 3]'', new_max_size_bytes = 1000\<rparr> = None \<and>
   init demo_pickle permissive 1000 list_dir =
     Inr \<lparr>new_files = list_dir, new_metadata = Other ''[1, 2, 3]'', new_max_size_bytes = 1000\<rparr> \<and>
   init demo_pickle permissive 1000 quit_dir = Inl SystemExit"
  by (simp add: init_def load_metadata_cases list_dir_def quit_dir_def metadata_file_def
      permissive_def demo_pickle_def as_cache_def)

section \<open>Clearing the cache\<close>

lemma clear_loop_frame:
  "\<lbrakk>n \<notin> set ns\<rbrakk> \<Longrightarrow>
   map_of (case clear_loop e ns d of Inl (x, d') \<Rightarrow> d' | Inr d' \<Rightarrow> d') n = map_of d n"
proof (induction ns arbitrary: d)
  case Nil
  then show ?case by simp
next
  case (Cons a ns)
  show ?case
  proof (cases "unlink e d a")
    case (Inl x)
    then show ?thesis by simp
  next
    case (Inr d')
    then have "map_of d' n = map_of d n"
      using Cons.prems by (auto dest!: map_of_unlink)
    with Cons Inr show ?thesis by simp
  qed
qed

lemma glob_names_match: "n \<in> set (map fst (glob d)) \<Longrightarrow> matches_pattern n"
  by (auto simp: glob_def)

lemma clear_frame_aux:
  assumes "\<not> matches_pattern n" and "n \<noteq> metadata_file"
  shows "map_of (files (clear pk e now c)) n = map_of (files c) n"
proof -
  have "n \<notin> set (map fst (glob (files c)))"
    using assms(1) glob_names_match by blast
  from clear_loop_frame [OF this, of e "files c"] assms(2) show ?thesis
    by (auto simp: clear_def map_of_save_metadata split: sum.splits)
qed

lemma clear_keeps_index_file:
  assumes "exists_path (files c) metadata_file"
  shows "exists_path (files (clear pk e now c)) metadata_file"
proof -
  have "metadata_file \<notin> set (map fst (glob (files c)))"
    using not_matches_metadata glob_names_match by blast
  from clear_loop_frame [OF this, of e "files c"] assms
  have *: "exists_path (case clear_loop e (map fst (glob (files c))) (files c) of
             Inl (x, d') \<Rightarrow> d' | Inr d' \<Rightarrow> d') metadata_file"
    by (simp add: exists_path_map_of)
  show ?thesis
  proof (cases "clear_loop e (map fst (glob (files c))) (files c)")
    case (Inl a)
    with * show ?thesis by (simp add: clear_def split: prod.splits)
  next
    case (Inr d)
    with * have "exists_path (files (c\<lparr>files := d, metadata := []\<rparr>)) metadata_file" by simp
    from save_metadata_keeps [OF this] Inr show ?thesis by (simp add: clear_def)
  qed
qed

text \<open>
  C10. \<^verbatim>\<open>clear\<close> touches no name outside the pattern \<^verbatim>\<open>embedding_*.pkl\<close>: such a
  name stays in the directory, and unless it is the index file its node is unchanged.
  The index file and the temporary files are such names. When the loop completes and
  the index file can be written, it holds the dump of the empty index afterwards.
\<close>

theorem clear_only_entry_files:
  assumes "\<not> matches_pattern n"
  shows "(exists_path (files c) n \<longrightarrow> exists_path (files (clear pk e now c)) n) \<and>
         (n \<noteq> metadata_file \<longrightarrow> map_of (files (clear pk e now c)) n = map_of (files c) n) \<and>
         \<not> matches_pattern metadata_file \<and>
         \<not> matches_pattern (with_suffix (get_cache_path md5 key) ''.tmp'') \<and>
         (\<forall>d. clear_loop e (map fst (glob (files c))) (files c) = Inr d \<longrightarrow>
              \<not> write_denied e metadata_file \<longrightarrow> map_of (files c) metadata_file \<noteq> Some Dir \<longrightarrow>
              map_of (files (clear pk e now c)) metadata_file = Some (File (dump_index pk []) now))"
proof -
  have "map_of (files (clear pk e now c)) metadata_file = Some (File (dump_index pk []) now)"
    if "clear_loop e (map fst (glob (files c))) (files c) = Inr d"
      and "\<not> write_denied e metadata_file" and "map_of (files c) metadata_file \<noteq> Some Dir" for d
  proof -
    have "metadata_file \<notin> set (map fst (glob (files c)))"
      using not_matches_metadata glob_names_match by blast
    from clear_loop_frame [OF this, of e "files c"] that(1,3)
    have "map_of (files (c\<lparr>files := d, metadata := []\<rparr>)) metadata_file \<noteq> Some Dir" by simp
    from save_metadata_ok [OF that(2) this, of pk now] that(1) show ?thesis
      by (simp add: clear_def)
  qed
  moreover
  have "exists_path (files (clear pk e now c)) n" if "exists_path (files c) n"
  proof (cases "n = metadata_file")
    case True
    with that show ?thesis by (simp add: clear_keeps_index_file)
  next
    case False
    with that assms show ?thesis by (simp add: exists_path_map_of clear_frame_aux)
  qed
  ultimately show ?thesis
    using assms by (simp add: clear_frame_aux not_matches_metadata not_matches_temp_path)
qed

lemma clear_two_cache:
  "clear demo_pickle permissive 5 two_cache =
     \<lparr>files = [(''embedding_c.tmp'', File ''Vc'' 3), (''metadata.pkl'', File ''M'' 5)],
      metadata = [], max_size_bytes = 1000\<rparr>"
  by (simp add: clear_def two_cache_def two_dir_def glob_def matches_pattern_def unlink_def
      permissive_def AList.delete_eq save_metadata_def open_wb_def write_bytes_def metadata_file_def
      demo_pickle_def)

theorem clear_only_entry_files_witness:
  "\<not> matches_pattern ''embedding_c.tmp'' \<and>
   exists_path (files (clear demo_pickle permissive 5 two_cache)) ''embedding_c.tmp'' \<and>
   map_of (files (clear demo_pickle permissive 5 two_cache)) ''embedding_c.tmp'' = Some (File ''Vc'' 3) \<and>
   map_of (files (clear demo_pickle permissive 5 two_cache)) metadata_file = Some (File ''M'' 5)"
proof -
  have h: "\<not> matches_pattern ''embedding_c.tmp''"
    by (simp add: matches_pattern_def)
  have l: "clear_loop permissive (map fst (glob (files two_cache))) (files two_cache) =
      Inr [(''embedding_c.tmp'', File ''Vc'' 3),
           (''metadata.pkl'', File ''Membedding_a.pkl;embedding_b.pkl;'' 2)]"
    by (simp add: two_cache_def two_dir_def glob_def matches_pattern_def unlink_def
        permissive_def AList.delete_eq)
  from clear_only_entry_files [OF h, of two_cache demo_pickle permissive 5 demo_md5 "''k''"] l h
  show ?thesis
    by (simp add: two_cache_def two_dir_def exists_path_def metadata_file_def permissive_def
        demo_pickle_def)
qed

text \<open>
  C5. \<^verbatim>\<open>clear\<close> is claimed to skip an entry file that cannot be removed and to go on
  with the other files and with the reset of the index. The loop has no handler of its
  own: when the first of two entries cannot be removed, the second stays, the index
  is not reset and not written, and the cache still reports both entries.
\<close>

theorem clear_aborts_on_first_failure:
  "clear demo_pickle locked_a 5 two_cache = two_cache \<and>
   fst (find_cache demo_md5 ''b'' (clear demo_pickle locked_a 5 two_cache)) \<and>
   info_files (get_cache_info (clear demo_pickle locked_a 5 two_cache)) = 2"
proof -
  have c: "clear demo_pickle locked_a 5 two_cache = two_cache"
    by (simp add: clear_def two_cache_def two_dir_def glob_def matches_pattern_def unlink_def
        locked_a_def permissive_def)
  show ?thesis
    unfolding c
    by (simp add: two_cache_def two_dir_def find_cache_def get_cache_path_def get_cache_key_def
        demo_md5_def exists_path_def get_cache_info_def glob_def matches_pattern_def Let_def)
qed

section \<open>A failed write\<close>



lemma write_entry_steps:
  "write_entry pk e now p v d =
     (if write_denied e (with_suffix p ''.tmp'') \<or> map_of d (with_suffix p ''.tmp'') = Some Dir
      then Inl (OSError, d)
      else (case dump_value pk v of
              DumpFailed b \<Rightarrow>
                Inl (PicklingError, AList.update (with_suffix p ''.tmp'') (File b now) d)
            | Dumped b \<Rightarrow>
                move e now (AList.update (with_suffix p ''.tmp'') (File b now) d)
                  (with_suffix p ''.tmp'') p))"
  by (simp add: write_entry_def Let_def open_wb_def write_bytes_def split: dump_result.splits)





lemma put_except_metadata [simp]:
  "metadata (put_except e p c) = metadata c" "max_size_bytes (put_except e p c) = max_size_bytes c"
  by (auto simp: put_except_def Let_def split: sum.splits)





section \<open>What an eviction pass leaves alone\<close>

lemma evict_only_deletes:
  "evict e tot tg cs (d, m, r) = (d', m', r') \<Longrightarrow>
     (map_of d' n = None \<or> map_of d' n = map_of d n) \<and>
     (map_of m' n = map_of m n \<or> (map_of m' n = None \<and> map_of d' n = None))"
proof (induction cs arbitrary: d m r)
  case Nil
  then show ?case by simp
next
  case (Cons c cs)
  obtain n0 s a where c: "c = (n0, s, a)" by (cases c) auto
  show ?case
  proof (cases "real_of_int (tot - r) \<le> tg")
    case True
    with Cons.prems c show ?thesis by simp
  next
    case stop: False
    show ?thesis
    proof (cases "unlink e d n0")
      case (Inl x)
      with Cons.prems c stop have "evict e tot tg cs (d, m, r) = (d', m', r')" by simp
      from Cons.IH [OF this] show ?thesis .
    next
      case (Inr d1)
      with Cons.prems c stop
      have "evict e tot tg cs (d1, AList.delete n0 m, r + s) = (d', m', r')" by simp
      from Cons.IH [OF this] map_of_unlink [OF Inr] show ?thesis
        by (auto simp: delete_conv' split: if_splits)
    qed
  qed
qed


lemma evict_frame:
  "evict e tot tg cs (d, m, r) = (d', m', r') \<Longrightarrow> n \<notin> fst ` set cs \<Longrightarrow>
     map_of d' n = map_of d n \<and> map_of m' n = map_of m n"
proof (induction cs arbitrary: d m r)
  case Nil
  then show ?case by simp
next
  case (Cons c cs)
  obtain n0 s a where c: "c = (n0, s, a)" by (cases c) auto
  with Cons.prems have ne: "n \<noteq> n0" and nin: "n \<notin> fst ` set cs" by auto
  show ?case
  proof (cases "real_of_int (tot - r) \<le> tg")
    case True
    with Cons.prems c show ?thesis by simp
  next
    case stop: False
    show ?thesis
    proof (cases "unlink e d n0")
      case (Inl x)
      with Cons.prems c stop have "evict e tot tg cs (d, m, r) = (d', m', r')" by simp
      from Cons.IH [OF this nin] show ?thesis .
    next
      case (Inr d1)
      with Cons.prems c stop
      have "evict e tot tg cs (d1, AList.delete n0 m, r + s) = (d', m', r')" by simp
      from Cons.IH [OF this nin] map_of_unlink [OF Inr] ne show ?thesis
        by (simp add: delete_conv')
    qed
  qed
qed

lemma cache_files_names: "fst ` set (cache_files m g) \<subseteq> fst ` set g"
  by (induction m g rule: cache_files.induct) auto

lemma cache_files_glob_match: "n \<in> fst ` set (cache_files m (glob d)) \<Longrightarrow> matches_pattern n"
  using cache_files_names [of m "glob d"] glob_names_match [of n d] by auto

lemma cleanup_only_deletes:
  "(n \<noteq> metadata_file \<longrightarrow>
      map_of (files (cleanup_old_files pk e now c)) n = None \<or>
      map_of (files (cleanup_old_files pk e now c)) n = map_of (files c) n) \<and>
   (map_of (metadata (cleanup_old_files pk e now c)) n = map_of (metadata c) n \<or>
    map_of (metadata (cleanup_old_files pk e now c)) n = None \<and>
      (n \<noteq> metadata_file \<longrightarrow> map_of (files (cleanup_old_files pk e now c)) n = None))"
proof (cases "total_size (cache_files (metadata c) (glob (files c))) > max_size_bytes c")
  case False
  then show ?thesis by (simp add: cleanup_old_files_def)
next
  case True
  let ?cs = "cache_files (metadata c) (glob (files c))"
  show ?thesis
  proof (cases "target_size (max_size_bytes c)")
    case None
    with True show ?thesis by (simp add: cleanup_old_files_def Let_def)
  next
    case (Some target)
    obtain d m r where ev: "evict e (total_size ?cs) target
        (sort_key (\<lambda>(n, s, a). a) ?cs) (files c, metadata c, 0) = (d, m, r)"
      using prod_cases3 by blast
    with True Some
    have cl: "cleanup_old_files pk e now c = save_metadata pk e now (c\<lparr>files := d, metadata := m\<rparr>)"
      by (simp add: cleanup_old_files_def Let_def)
    from evict_only_deletes [OF ev, of n] show ?thesis
      by (auto simp: cl map_of_save_metadata)
  qed
qed

lemma cleanup_limit [simp]:
  "max_size_bytes (cleanup_old_files pk e now c) = max_size_bytes c"
  by (simp add: cleanup_old_files_def Let_def split: prod.splits option.splits)



section \<open>Round trip\<close>

lemma move_Inr:
  assumes "move e now d src dst = Inr d'" and "src \<noteq> dst"
  shows "(map_of d dst = Some Dir \<and> map_of d' dst = Some Dir) \<or>
         (map_of d dst \<noteq> Some Dir \<and>
          (\<exists>b t. map_of d src = Some (File b t) \<and> map_of d' dst = Some (File b t)))"
  using assms
  by (auto simp: move_def Let_def update_conv' delete_conv'
      split: option.splits node.splits if_splits)

lemma write_entry_Inr_cases:
  assumes "write_entry pk e now p v d = Inr d'" and "with_suffix p ''.tmp'' \<noteq> p"
  shows "(map_of d p = Some Dir \<and> map_of d' p = Some Dir) \<or>
         (map_of d p \<noteq> Some Dir \<and>
          (\<exists>b. dump_value pk v = Dumped b \<and> map_of d' p = Some (File b now)))"
proof -
  let ?t = "with_suffix p ''.tmp''"
  from assms(1) obtain b where b: "dump_value pk v = Dumped b"
    and m: "move e now (AList.update ?t (File b now) d) ?t p = Inr d'"
    by (auto simp: write_entry_steps split: if_splits dump_result.splits)
  from move_Inr [OF m assms(2)] assms(2) b show ?thesis
    by (auto simp: update_conv')
qed

lemma write_entry_Inr:
  assumes "write_entry pk e now p v d = Inr d'"
    and "map_of d p \<noteq> Some Dir" and "with_suffix p ''.tmp'' \<noteq> p"
  shows "\<exists>b. dump_value pk v = Dumped b \<and> map_of d' p = Some (File b now)"
  using write_entry_Inr_cases [OF assms(1,3)] assms(2) by blast


lemma get_hit:
  assumes "map_of (files c) (get_cache_path md5 key) = Some (File b t)"
    and "\<not> read_denied e (get_cache_path md5 key)"
    and "load_value pk b = Some v"
  shows "get pk md5 e now key c =
    (Some v, save_metadata pk e now (c\<lparr>metadata := AList.update (get_cache_path md5 key) now (metadata c)\<rparr>))"
  using assms by (simp add: get_def Let_def exists_path_map_of get_try_def read_file_def)

text \<open>
  C1. After a \<^verbatim>\<open>put(k, v)\<close> whose write completed, a \<^verbatim>\<open>get(k)\<close> on the resulting
  cache returns \<open>v\<close>, when the entry was not evicted by the pass that ends the
  \<^verbatim>\<open>put\<close>, the file can be read, and loading what the pickle dumped for \<open>v\<close> gives
  \<open>v\<close> back. (The path of the key is not a directory.)
\<close>

theorem put_get_roundtrip:
  assumes "write_entry pk e t1 (get_cache_path md5 key) v (files c) = Inr d"
    and "\<forall>b. dump_value pk v = Dumped b \<longrightarrow> load_value pk b = Some v"
    and "map_of (files c) (get_cache_path md5 key) \<noteq> Some Dir"
    and "exists_path (files (put pk md5 e t1 key v c)) (get_cache_path md5 key)"
    and "\<not> read_denied e' (get_cache_path md5 key)"
  shows "fst (get pk md5 e' t2 key (put pk md5 e t1 key v c)) = Some v"
proof -
  let ?p = "get_cache_path md5 key"
  let ?c1 = "save_metadata pk e t1 (c\<lparr>files := d, metadata := AList.update ?p t1 (metadata c)\<rparr>)"
  from write_entry_Inr [OF assms(1,3) temp_neq_cache_path]
  obtain b where b: "dump_value pk v = Dumped b" "map_of d ?p = Some (File b t1)" by blast
  have p: "put pk md5 e t1 key v c = cleanup_old_files pk e t1 ?c1"
    using assms(1) by (simp add: put_def Let_def)
  have "map_of (files ?c1) ?p = Some (File b t1)"
    using b(2) metadata_neq_cache_path [of md5 key] by (simp add: map_of_save_metadata)
  moreover have "map_of (files (cleanup_old_files pk e t1 ?c1)) ?p \<noteq> None"
    using assms(4) by (simp add: p exists_path_map_of)
  ultimately have "map_of (files (put pk md5 e t1 key v c)) ?p = Some (File b t1)"
    using cleanup_only_deletes [of ?p pk e t1 ?c1] metadata_neq_cache_path [of md5 key]
    unfolding p by auto
  moreover have "load_value pk b = Some v"
    using assms(2) b(1) by simp
  ultimately show ?thesis
    using assms(5) by (simp add: get_hit)
qed

lemma put_two_cache:
  "put demo_pickle demo_md5 permissive 5 ''k'' ''hello'' two_cache =
     \<lparr>files = [(''embedding_a.pkl'', File ''Vaaa'' 1),
               (''embedding_b.pkl'', File ''Vbbbbb'' 2),
               (''embedding_c.tmp'', File ''Vc'' 3),
               (''metadata.pkl'', File ''Membedding_a.pkl;embedding_b.pkl;embedding_k.pkl;'' 5),
               (''embedding_k.pkl'', File ''Vhello'' 5)],
      metadata = [(''embedding_a.pkl'', 1), (''embedding_b.pkl'', 2), (''embedding_k.pkl'', 5)],
      max_size_bytes = 1000\<rparr>"
  by (simp add: put_def get_cache_path_def get_cache_key_def demo_md5_def write_entry_def
      with_suffix_def open_wb_def permissive_def two_cache_def two_dir_def demo_pickle_def
      write_bytes_def move_def AList.delete_eq save_metadata_def metadata_file_def target_size_def
      cleanup_old_files_def glob_def matches_pattern_def total_size_def Let_def)

theorem put_get_roundtrip_witness:
  "write_entry demo_pickle permissive 5 (get_cache_path demo_md5 ''k'') ''hello'' (files two_cache) =
     Inr [(''embedding_a.pkl'', File ''Vaaa'' 1),
          (''embedding_b.pkl'', File ''Vbbbbb'' 2),
          (''embedding_c.tmp'', File ''Vc'' 3),
          (''metadata.pkl'', File ''Membedding_a.pkl;embedding_b.pkl;'' 2),
          (''embedding_k.pkl'', File ''Vhello'' 5)] \<and>
   dump_value demo_pickle ''hello'' = Dumped ''Vhello'' \<and>
   load_value demo_pickle ''Vhello'' = Some ''hello'' \<and>
   exists_path (files (put demo_pickle demo_md5 permissive 5 ''k'' ''hello'' two_cache))
     (get_cache_path demo_md5 ''k'') \<and>
   fst (get demo_pickle demo_md5 permissive 6 ''k''
          (put demo_pickle demo_md5 permissive 5 ''k'' ''hello'' two_cache)) = Some ''hello''"
proof -
  have h1: "write_entry demo_pickle permissive 5 (get_cache_path demo_md5 ''k'') ''hello'' (files two_cache) =
     Inr [(''embedding_a.pkl'', File ''Vaaa'' 1),
          (''embedding_b.pkl'', File ''Vbbbbb'' 2),
          (''embedding_c.tmp'', File ''Vc'' 3),
          (''metadata.pkl'', File ''Membedding_a.pkl;embedding_b.pkl;'' 2),
          (''embedding_k.pkl'', File ''Vhello'' 5)]"
    by (simp add: get_cache_path_def get_cache_key_def demo_md5_def write_entry_def
      with_suffix_def open_wb_def permissive_def two_cache_def two_dir_def demo_pickle_def
      write_bytes_def move_def AList.delete_eq)
  have h2: "\<forall>b. dump_value demo_pickle ''hello'' = Dumped b \<longrightarrow> load_value demo_pickle b = Some ''hello''"
    by (simp add: demo_pickle_def)
  have h3: "map_of (files two_cache) (get_cache_path demo_md5 ''k'') \<noteq> Some Dir"
    by (simp add: get_cache_path_def get_cache_key_def demo_md5_def two_cache_def two_dir_def)
  have h4: "exists_path (files (put demo_pickle demo_md5 permissive 5 ''k'' ''hello'' two_cache))
     (get_cache_path demo_md5 ''k'')"
    by (simp add: put_two_cache exists_path_def get_cache_path_def get_cache_key_def demo_md5_def)
  have h5: "\<not> read_denied permissive (get_cache_path demo_md5 ''k'')"
    by (simp add: permissive_def)
  have h6: "dump_value demo_pickle ''hello'' = Dumped ''Vhello'' \<and>
      load_value demo_pickle ''Vhello'' = Some ''hello''"
    by (simp add: demo_pickle_def)
  from put_get_roundtrip [OF h1 h2 h3 h4 h5, of 6] h1 h4 h6 show ?thesis
    by simp
qed

section \<open>The product in double precision\<close>

lemma bitlen_0 [simp]: "bitlen 0 = 0"
  by (simp add: bitlen.simps)

lemma bitlen_pos: "0 < n \<Longrightarrow> bitlen n = Suc (bitlen (n div 2))"
  by (subst bitlen.simps) simp

lemma bitlen_eq: "2 ^ k \<le> n \<Longrightarrow> n < 2 ^ Suc k \<Longrightarrow> bitlen n = Suc k"
proof (induction k arbitrary: n)
  case 0
  then have "n = 1" by simp
  then show ?case by (simp add: bitlen_pos)
next
  case (Suc k)
  then have "2 ^ k \<le> n div 2" "n div 2 < 2 ^ Suc k" by auto
  from Suc.IH [OF this] Suc.prems show ?case
    by (simp add: bitlen_pos)
qed

lemma bitlen_le: "n < 2 ^ k \<Longrightarrow> bitlen n \<le> k"
proof (induction k arbitrary: n)
  case 0
  then show ?case by simp
next
  case (Suc k)
  show ?case
  proof (cases "n = 0")
    case True
    then show ?thesis by simp
  next
    case False
    from Suc.prems have "n div 2 < 2 ^ k" by auto
    from Suc.IH [OF this] False show ?thesis by (simp add: bitlen_pos)
  qed
qed

lemma round53_exact: "n < 2 ^ 53 \<Longrightarrow> round53 n = n"
  using bitlen_le [of n 53] by (simp add: round53_def Let_def)

lemma round53_times_10: "round53 (10 * 3602879701896397) = 36028797018963968"
proof -
  have "bitlen (10 * 3602879701896397) = Suc 55"
    by (rule bitlen_eq) simp_all
  then show ?thesis
    by (simp add: round53_def Let_def)
qed

lemma target_size_10: "target_size 10 = Some 8"
  using round53_exact [of 10] round53_times_10
  by (simp add: target_size_def Let_def)

lemma round53_times_3: "round53 (3 * 3602879701896397) = 10808639105689192"
proof -
  have "bitlen (3 * 3602879701896397) = Suc 53"
    by (rule bitlen_eq) simp_all
  then show ?thesis
    by (simp add: round53_def Let_def)
qed

lemma target_size_3: "target_size 3 = Some (10808639105689192 / 2 ^ 52)"
  using round53_exact [of 3] round53_times_3
  by (simp add: target_size_def Let_def)

lemma round53_2_60: "round53 (2 ^ 60) = 2 ^ 60"
proof -
  have "bitlen (2 ^ 60) = Suc 60"
    by (rule bitlen_eq) simp_all
  then show ?thesis
    by (simp add: round53_def Let_def)
qed

lemma round53_times_2_60: "round53 (2 ^ 60 * 3602879701896397) = 2 ^ 60 * 3602879701896397"
proof -
  have "bitlen (2 ^ 60 * 3602879701896397) = Suc 111"
    by (rule bitlen_eq) simp_all
  then show ?thesis
    by (simp add: round53_def Let_def)
qed

lemma target_size_2_60: "target_size (2 ^ 60) = Some 922337203685477632"
  using round53_2_60 round53_times_2_60
  by (simp add: target_size_def Let_def)

lemma bitlen_lower: "0 < n \<Longrightarrow> 2 ^ (bitlen n - 1) \<le> n"
proof (induction n rule: less_induct)
  case (less n)
  show ?case
  proof (cases "n div 2 = 0")
    case True
    with less.prems show ?thesis by (simp add: bitlen_pos)
  next
    case False
    then have pos: "0 < n div 2" by simp
    have "n div 2 < n" using less.prems by simp
    from less.IH [OF this pos] have "2 ^ (bitlen (n div 2) - 1) \<le> n div 2" .
    moreover have "bitlen n - 1 = Suc (bitlen (n div 2) - 1)"
      using less.prems pos by (simp add: bitlen_pos)
    ultimately show ?thesis by simp
  qed
qed

lemma round53_le: "round53 n \<le> 2 * n"
proof (cases "bitlen n \<le> 53")
  case True
  then show ?thesis by (simp add: round53_def)
next
  case False
  define s where "s = bitlen n - 53"
  have pos: "0 < n" using False by (cases "n = 0") auto
  have "s \<le> bitlen n - 1" using False by (simp add: s_def)
  then have "(2::nat) ^ s \<le> 2 ^ (bitlen n - 1)" by (rule power_increasing) simp
  from this bitlen_lower [OF pos] have s: "2 ^ s \<le> n" by (rule order_trans)
  have "round53 n \<le> (n div 2 ^ s + 1) * 2 ^ s"
    using False by (simp add: round53_def Let_def s_def)
  also have "\<dots> = n div 2 ^ s * 2 ^ s + 2 ^ s" by (simp add: algebra_simps)
  also have "\<dots> \<le> n + 2 ^ s" by simp
  also have "\<dots> \<le> 2 * n" using s by simp
  finally show ?thesis .
qed

lemma target_size_defined:
  assumes "\<bar>limit\<bar> < 2 ^ 1023"
  shows "\<exists>t. target_size limit = Some t"
proof -
  have "nat \<bar>limit\<bar> < 2 ^ 1023"
    using assms by (simp add: nat_less_iff)
  then have "2 * nat \<bar>limit\<bar> < 2 ^ 1024" by simp
  with round53_le [of "nat \<bar>limit\<bar>"] have "round53 (nat \<bar>limit\<bar>) < 2 ^ 1024"
    by (rule le_less_trans)
  then have "\<not> 2 ^ 1024 \<le> round53 (nat \<bar>limit\<bar>)" by (simp only: not_le)
  then show ?thesis
    unfolding target_size_def Let_def by (simp only: if_False) blast
qed

text \<open>
  Three values of the product: for the limits 10 and 3, and for the limit \<open>2 ^ 60\<close>,
  where the double is above the exact product 922337203685477580.8, so that a remaining
  size of 922337203685477600 ends the loop.
\<close>

lemma target_size_doubles:
  "target_size 10 = Some 8 \<and>
   target_size 3 = Some (10808639105689192 / 2 ^ 52) \<and>
   target_size (2 ^ 60) = Some 922337203685477632 \<and>
   real_of_int 922337203685477600 \<le> 922337203685477632 \<and>
   \<not> real_of_int 922337203685477600 \<le> real_of_int (2 ^ 60) * 0.8"
  using target_size_10 target_size_3 target_size_2_60 by simp

section \<open>The eviction pass\<close>

lemma total_size_Cons [simp]: "total_size ((n, s, a) # cs) = s + total_size cs"
  by (simp add: total_size_def)

lemma total_size_Nil [simp]: "total_size [] = 0"
  by (simp add: total_size_def)

lemma restrict_delete_Cons:
  "AList.restrict (- A) (AList.delete n al) = AList.restrict (- insert n A) al"
  by (induction al) (auto simp: AList.restrict_eq AList.delete_eq)





lemma distinct_glob: "distinct (map fst d) \<Longrightarrow> distinct (map fst (glob d))"
  by (simp add: glob_def distinct_map_filter)








section \<open>Access times\<close>






lemma glob_save_metadata:
  "glob (files (save_metadata pk e now c)) = glob (files c)"
proof -
  have "glob (AList.update metadata_file nd d) = glob d" for nd d
    using not_matches_metadata by (induction d) (auto simp: glob_def)
  then show ?thesis
    by (auto simp: save_metadata_def open_wb_def write_bytes_def split: sum.splits if_splits)
qed








section \<open>Clearing when no removal fails\<close>

text \<open>
  When every match of the pattern is a regular file whose removal is not refused,
  \<^verbatim>\<open>clear\<close> removes all of them, resets the index and writes it; afterwards no entry
  is counted and no key is found.
\<close>

lemma clear_loop_all:
  assumes "distinct ns"
    and "\<forall>n \<in> set ns. (\<exists>b t. map_of d n = Some (File b t)) \<and> \<not> unlink_denied e n"
  shows "clear_loop e ns d = Inr (AList.restrict (- set ns) d)"
  using assms
proof (induction ns arbitrary: d)
  case Nil
  then show ?case by (simp add: AList.restrict_eq)
next
  case (Cons n ns)
  then obtain b t where "map_of d n = Some (File b t)" "\<not> unlink_denied e n" by auto
  then have u: "unlink e d n = Inr (AList.delete n d)" by (simp add: unlink_ok)
  have "\<forall>k \<in> set ns. (\<exists>b t. map_of (AList.delete n d) k = Some (File b t)) \<and> \<not> unlink_denied e k"
    using Cons.prems by (auto simp: delete_conv')
  with Cons.IH [of "AList.delete n d"] Cons.prems(1)
  have "clear_loop e ns (AList.delete n d) = Inr (AList.restrict (- set ns) (AList.delete n d))"
    by simp
  with u show ?case by (simp add: restrict_delete_Cons)
qed

lemma glob_restrict_none: "glob (AList.restrict (- fst ` set (glob d)) d) = []"
  by (induction d) (auto simp: glob_def AList.restrict_eq filter_empty_conv)

lemma glob_empty_not_exists:
  assumes "glob d = []"
  shows "\<not> exists_path d (get_cache_path md5 key)"
proof
  assume "exists_path d (get_cache_path md5 key)"
  then obtain nd where "(get_cache_path md5 key, nd) \<in> set d"
    by (auto simp: exists_path_iff)
  with matches_cache_path [of md5 key] have "(get_cache_path md5 key, nd) \<in> set (glob d)"
    by (simp add: glob_def)
  with assms show False by simp
qed

lemma clear_empties:
  assumes "distinct (map fst (files c))"
    and "\<forall>(n, nd) \<in> set (glob (files c)). nd \<noteq> Dir \<and> \<not> unlink_denied e n"
  shows "metadata (clear pk e now c) = [] \<and>
         info_files (get_cache_info (clear pk e now c)) = 0 \<and>
         \<not> fst (find_cache md5 key (clear pk e now c)) \<and>
         clear pk e now c =
           save_metadata pk e now
             (c\<lparr>files := AList.restrict (- fst ` set (glob (files c))) (files c), metadata := []\<rparr>)"
proof -
  let ?ns = "map fst (glob (files c))"
  have d: "distinct ?ns"
    using assms(1) by (rule distinct_glob)
  have "\<forall>n \<in> set ?ns. (\<exists>b t. map_of (files c) n = Some (File b t)) \<and> \<not> unlink_denied e n"
  proof
    fix n assume "n \<in> set ?ns"
    then obtain nd where nd: "(n, nd) \<in> set (glob (files c))" by auto
    with assms(2) obtain b t where "nd = File b t" "\<not> unlink_denied e n"
      by (cases nd) auto
    moreover from nd have "(n, nd) \<in> set (files c)" by (simp add: glob_def)
    ultimately show "(\<exists>b t. map_of (files c) n = Some (File b t)) \<and> \<not> unlink_denied e n"
      using assms(1) by auto
  qed
  from clear_loop_all [OF d this]
  have cl: "clear pk e now c =
      save_metadata pk e now
        (c\<lparr>files := AList.restrict (- fst ` set (glob (files c))) (files c), metadata := []\<rparr>)"
    by (simp add: clear_def)
  have g: "glob (files (clear pk e now c)) = []"
    by (simp add: cl glob_save_metadata glob_restrict_none)
  then have "\<not> fst (find_cache md5 key (clear pk e now c))"
    by (simp add: find_cache_def glob_empty_not_exists)
  with cl g show ?thesis
    by (simp add: get_cache_info_def Let_def)
qed

section \<open>A directory lists each name once\<close>

text \<open>
  The eviction theorem is about a directory that lists each name once, as every
  directory does. The operations keep it so.
\<close>

lemma distinct_open_wb:
  "open_wb e now d n = Inr d' \<Longrightarrow> distinct (map fst d) \<Longrightarrow> distinct (map fst d')"
  by (auto simp: open_wb_def distinct_update split: if_splits)

lemma distinct_write_bytes:
  "distinct (map fst d) \<Longrightarrow> distinct (map fst (write_bytes now d n b))"
  by (simp add: write_bytes_def distinct_update)

lemma distinct_unlink:
  "unlink e d n = Inr d' \<Longrightarrow> distinct (map fst d) \<Longrightarrow> distinct (map fst d')"
  by (auto dest!: unlink_eq simp: distinct_delete)

lemma distinct_move:
  assumes "distinct (map fst d)"
  shows "distinct (map fst (case move e now d src dst of Inl (x, d') \<Rightarrow> d' | Inr d' \<Rightarrow> d'))"
  using assms
  by (auto simp: move_def Let_def distinct_update distinct_delete
      split: option.splits node.splits)

lemma distinct_write_entry:
  assumes "distinct (map fst d)"
  shows "distinct (map fst (case write_entry pk e now p v d of Inl (x, d') \<Rightarrow> d' | Inr d' \<Rightarrow> d'))"
proof -
  have u: "distinct (map fst (AList.update (with_suffix p ''.tmp'') nd d))" for nd
    using assms by (simp add: distinct_update)
  show ?thesis
    using assms u distinct_move [OF u]
    by (auto simp: write_entry_steps split: dump_result.splits)
qed

lemma distinct_save_metadata:
  "distinct (map fst (files c)) \<Longrightarrow> distinct (map fst (files (save_metadata pk e now c)))"
  by (auto simp: save_metadata_def distinct_write_bytes dest: distinct_open_wb split: sum.splits)

lemma distinct_evict:
  "evict e tot tg cs (d, m, r) = (d', m', r') \<Longrightarrow> distinct (map fst d) \<Longrightarrow> distinct (map fst d')"
proof (induction cs arbitrary: d m r)
  case Nil
  then show ?case by simp
next
  case (Cons c cs)
  obtain n0 s a where c: "c = (n0, s, a)" by (cases c) auto
  show ?case
  proof (cases "real_of_int (tot - r) \<le> tg")
    case True
    with Cons.prems c show ?thesis by simp
  next
    case go: False
    show ?thesis
    proof (cases "unlink e d n0")
      case (Inl x)
      with Cons.prems c go have "evict e tot tg cs (d, m, r) = (d', m', r')" by simp
      from Cons.IH [OF this Cons.prems(2)] show ?thesis .
    next
      case (Inr d1)
      with Cons.prems c go
      have "evict e tot tg cs (d1, AList.delete n0 m, r + s) = (d', m', r')" by simp
      from Cons.IH [OF this distinct_unlink [OF Inr Cons.prems(2)]] show ?thesis .
    qed
  qed
qed

lemma distinct_cleanup:
  assumes "distinct (map fst (files c))"
  shows "distinct (map fst (files (cleanup_old_files pk e now c)))"
proof -
  have "distinct (map fst (files (save_metadata pk e now (c\<lparr>files := d, metadata := m\<rparr>))))"
    if "evict e tot tg cs (files c, metadata c, 0) = (d, m, r)" for tot tg cs d m r
    using distinct_evict [OF that assms] by (simp add: distinct_save_metadata)
  with assms show ?thesis
    by (auto simp: cleanup_old_files_def Let_def split: option.splits prod.splits)
qed

lemma distinct_clear_loop:
  "distinct (map fst d) \<Longrightarrow>
   distinct (map fst (case clear_loop e ns d of Inl (x, d') \<Rightarrow> d' | Inr d' \<Rightarrow> d'))"
proof (induction ns arbitrary: d)
  case Nil
  then show ?case by simp
next
  case (Cons n ns)
  show ?case
  proof (cases "unlink e d n")
    case (Inl x)
    with Cons.prems show ?thesis by simp
  next
    case (Inr d1)
    from Cons.IH [OF distinct_unlink [OF Inr Cons.prems]] Inr show ?thesis by simp
  qed
qed

lemma distinct_operations:
  assumes "distinct (map fst (files c))"
  shows "distinct (map fst (files (snd (get pk md5 e now key c))))"
    and "distinct (map fst (files (put pk md5 e now key v c)))"
    and "distinct (map fst (files (snd (find_cache md5 key c))))"
    and "distinct (map fst (files (clear pk e now c)))"
proof -
  show "distinct (map fst (files (snd (get pk md5 e now key c))))"
    using assms
    by (auto simp: get_def Let_def get_try_def get_except_def distinct_save_metadata
        dest: distinct_unlink split: sum.splits option.splits)
next
  let ?p = "get_cache_path md5 key"
  show "distinct (map fst (files (put pk md5 e now key v c)))"
  proof (cases "write_entry pk e now ?p v (files c)")
    case (Inl a)
    obtain x d where a: "a = (x, d)" by (cases a)
    with Inl distinct_write_entry [OF assms, of pk e now ?p v] have "distinct (map fst d)" by simp
    with Inl a show ?thesis
      by (auto simp: put_def Let_def put_except_def dest: distinct_unlink split: sum.splits)
  next
    case (Inr d)
    with distinct_write_entry [OF assms, of pk e now ?p v] have "distinct (map fst d)" by simp
    with Inr show ?thesis
      by (simp add: put_def Let_def distinct_cleanup distinct_save_metadata)
  qed
next
  show "distinct (map fst (files (snd (find_cache md5 key c))))"
    using assms by (simp add: find_cache_def)
next
  show "distinct (map fst (files (clear pk e now c)))"
    using distinct_clear_loop [OF assms, of e "map fst (glob (files c))"]
    by (auto simp: clear_def distinct_save_metadata split: sum.splits)
qed

end
